theory Spec2Isabelle
  imports Main "HOL-Library.AList" "HOL-Library.Sublist"
begin

section \<open>Values of the object model\<close>

text \<open>
  The module \<^verbatim>\<open>duet/model.py\<close> works on trees decoded from JSON. A node is
  \<^verbatim>\<open>None\<close>, a number, a string, a list of nodes or a dict from strings to nodes.
  Python's \<^verbatim>\<open>bool\<close> is a subclass of \<^verbatim>\<open>int\<close>, and every operation the module
  applies to a scalar (\<^verbatim>\<open>==\<close>, truthiness, \<^verbatim>\<open>> 0\<close>, \<^verbatim>\<open>len\<close>, \<^verbatim>\<open>dict()\<close>,
  \<^verbatim>\<open>isinstance\<close> against dict and list) treats \<^verbatim>\<open>True\<close> and \<^verbatim>\<open>False\<close> as the
  integers 1 and 0, so booleans are the numbers \<open>JNum 1\<close> and \<open>JNum 0\<close>. Numbers are
  unbounded integers; floating point values are not represented.

  A dict is an association list in insertion order, as Python iterates it. Python keeps
  the keys of a dict distinct; \<open>wf_json\<close> below states that invariant.
\<close>

datatype json =
    JNull
  | JNum int
  | JStr string
  | JList "json list"
  | JDict "(string \<times> json) list"

type_synonym dict = "(string \<times> json) list"

text \<open>
  The exceptions the module can raise, as values. \<open>LengthMismatch key src dest\<close> is the
  \<^verbatim>\<open>ValueError\<close> raised by \<^verbatim>\<open>merge_dictionary\<close> with its three format arguments;
  \<open>DictUpdateValueError\<close> is the \<^verbatim>\<open>ValueError\<close> of \<^verbatim>\<open>dict(xs)\<close> on an element
  whose length is not 2. \<open>TransportError\<close> stands for whatever the transport client
  raises. \<open>Unmodelled\<close> marks the two places where Python leaves the value type above:
  the conversion \<^verbatim>\<open>dict(xs)\<close> of a list that holds a pair whose key is \<^verbatim>\<open>None\<close> or
  a number (the dict built has a key that is not a string), and a truthy string or list
  handed to \<^verbatim>\<open>_handle_om_changes\<close>, whose parameter is declared \<^verbatim>\<open>changes: dict\<close>.
  Where the model returns \<open>Unmodelled\<close> it says nothing about what Python does.
\<close>

datatype error =
    TransportError
  | KeyError
  | TypeError
  | AttributeError
  | IndexError
  | DictUpdateValueError
  | LengthMismatch string json json
  | Unmodelled

fun wf_json :: "json \<Rightarrow> bool" where
  "wf_json (JList xs) = (\<forall>x \<in> set xs. wf_json x)"
| "wf_json (JDict d) = (distinct (map fst d) \<and> (\<forall>v \<in> set (map snd d). wf_json v))"
| "wf_json _ = True"

subsection \<open>Python primitives on values\<close>

text \<open>
  \<^verbatim>\<open>dict(destination)\<close>. A dict is copied. \<^verbatim>\<open>None\<close> and numbers are not iterable:
  \<^verbatim>\<open>TypeError\<close>. A string or a list is iterated, and every element is read as a
  sequence of length 2, the key and the value, in order:
  \<^item> an element that is \<^verbatim>\<open>None\<close> or a number is not a sequence: \<^verbatim>\<open>TypeError\<close>;
  \<^item> an element whose length is not 2 raises \<^verbatim>\<open>ValueError\<close> (so every non-empty
    string does: its elements are strings of length 1);
  \<^item> a list of length 2 gives its two elements, a string of length 2 its two characters,
    a dict with two keys its two keys;
  \<^item> a key that is a list or a dict is unhashable: \<^verbatim>\<open>TypeError\<close>;
  \<^item> a string key is stored as \<^verbatim>\<open>d[key] = value\<close> does;
  \<^item> a key that is \<^verbatim>\<open>None\<close> or a number would make a dict that is not a value of
    type \<open>json\<close>: \<open>Unmodelled\<close>.
\<close>

fun py_pair :: "json \<Rightarrow> error + json \<times> json" where
  "py_pair (JList [k, v]) = Inr (k, v)"
| "py_pair (JList xs) = Inl DictUpdateValueError"
| "py_pair (JStr [c, d]) = Inr (JStr [c], JStr [d])"
| "py_pair (JStr s) = Inl DictUpdateValueError"
| "py_pair (JDict [(k1, v1), (k2, v2)]) = Inr (JStr k1, JStr k2)"
| "py_pair (JDict d) = Inl DictUpdateValueError"
| "py_pair JNull = Inl TypeError"
| "py_pair (JNum n) = Inl TypeError"

fun py_dict_of_list :: "json list \<Rightarrow> dict \<Rightarrow> error + dict" where
  "py_dict_of_list [] acc = Inr acc"
| "py_dict_of_list (x # xs) acc =
     (case py_pair x of
        Inl e \<Rightarrow> Inl e
      | Inr (k, v) \<Rightarrow>
          (case k of
             JStr s \<Rightarrow> py_dict_of_list xs (AList.update s v acc)
           | JList l \<Rightarrow> Inl TypeError
           | JDict d \<Rightarrow> Inl TypeError
           | _ \<Rightarrow> Inl Unmodelled))"

fun py_dict :: "json \<Rightarrow> error + dict" where
  "py_dict (JDict d) = Inr d"
| "py_dict JNull = Inl TypeError"
| "py_dict (JNum n) = Inl TypeError"
| "py_dict (JStr s) = (if s = [] then Inr [] else Inl DictUpdateValueError)"
| "py_dict (JList xs) = py_dict_of_list xs []"

text \<open>\<^verbatim>\<open>destination.get(key, default)\<close>: only a dict has the method.\<close>

fun py_get :: "json \<Rightarrow> string \<Rightarrow> json \<Rightarrow> error + json" where
  "py_get (JDict d) k dflt = Inr (case map_of d k of None \<Rightarrow> dflt | Some v \<Rightarrow> v)"
| "py_get _ k dflt = Inl AttributeError"

text \<open>\<^verbatim>\<open>len(x)\<close>.\<close>

fun py_len :: "json \<Rightarrow> error + nat" where
  "py_len (JList xs) = Inr (length xs)"
| "py_len (JDict d) = Inr (length d)"
| "py_len (JStr s) = Inr (length s)"
| "py_len _ = Inl TypeError"

text \<open>\<^verbatim>\<open>x[idx]\<close> for a non-negative integer index: an element of a list, a one-character
  string of a string, \<^verbatim>\<open>KeyError\<close> on a dict (its keys are strings).\<close>

fun py_getitem_idx :: "json \<Rightarrow> nat \<Rightarrow> error + json" where
  "py_getitem_idx (JList xs) i = (if i < length xs then Inr (xs ! i) else Inl IndexError)"
| "py_getitem_idx (JStr s) i = (if i < length s then Inr (JStr [s ! i]) else Inl IndexError)"
| "py_getitem_idx (JDict d) i = Inl KeyError"
| "py_getitem_idx _ i = Inl TypeError"

text \<open>\<^verbatim>\<open>a == b\<close>: structural, except that two dicts are equal when they have the same
  keys with equal values, in any order.\<close>

fun py_eq :: "json \<Rightarrow> json \<Rightarrow> bool" where
  "py_eq JNull JNull = True"
| "py_eq (JNum m) (JNum n) = (m = n)"
| "py_eq (JStr s) (JStr t) = (s = t)"
| "py_eq (JList xs) (JList ys) = list_all2 py_eq xs ys"
| "py_eq (JDict a) (JDict b) =
     (length a = length b \<and>
      (\<forall>(k, v) \<in> set a. case map_of b k of None \<Rightarrow> False | Some w \<Rightarrow> py_eq v w))"
| "py_eq _ _ = False"

text \<open>Truthiness, as \<^verbatim>\<open>if not changes\<close> reads it.\<close>

fun py_truthy :: "json \<Rightarrow> bool" where
  "py_truthy JNull = False"
| "py_truthy (JNum n) = (n \<noteq> 0)"
| "py_truthy (JStr s) = (s \<noteq> [])"
| "py_truthy (JList xs) = (xs \<noteq> [])"
| "py_truthy (JDict d) = (d \<noteq> [])"

text \<open>\<^verbatim>\<open>x > 0\<close>: defined on numbers only.\<close>

fun py_gt0 :: "json \<Rightarrow> error + bool" where
  "py_gt0 (JNum n) = Inr (n > 0)"
| "py_gt0 _ = Inl TypeError"

text \<open>\<^verbatim>\<open>xs.extend(ys)\<close>: only a list has the method; the argument is iterated (a
  string by characters, a dict by keys).\<close>

fun py_extend :: "json \<Rightarrow> json \<Rightarrow> error + json" where
  "py_extend (JList xs) (JList ys) = Inr (JList (xs @ ys))"
| "py_extend (JList xs) (JStr s) = Inr (JList (xs @ map (\<lambda>c. JStr [c]) s))"
| "py_extend (JList xs) (JDict d) = Inr (JList (xs @ map (\<lambda>kv. JStr (fst kv)) d))"
| "py_extend (JList xs) _ = Inl TypeError"
| "py_extend _ _ = Inl AttributeError"

text \<open>\<^verbatim>\<open>key in x\<close> for a string key: a key of a dict, an element of a list, a substring
  of a string.\<close>

fun py_contains :: "json \<Rightarrow> string \<Rightarrow> error + bool" where
  "py_contains (JDict d) k = Inr (k \<in> set (map fst d))"
| "py_contains (JList xs) k = Inr (JStr k \<in> set xs)"
| "py_contains (JStr s) k = Inr (sublist k s)"
| "py_contains _ k = Inl TypeError"

text \<open>\<^verbatim>\<open>x[key]\<close> and \<^verbatim>\<open>x[key] = v\<close> for a string key.\<close>

fun py_getitem_str :: "json \<Rightarrow> string \<Rightarrow> error + json" where
  "py_getitem_str (JDict d) k = (case map_of d k of None \<Rightarrow> Inl KeyError | Some v \<Rightarrow> Inr v)"
| "py_getitem_str _ k = Inl TypeError"

fun py_setitem_str :: "json \<Rightarrow> string \<Rightarrow> json \<Rightarrow> error + json" where
  "py_setitem_str (JDict d) k v = Inr (JDict (AList.update k v d))"
| "py_setitem_str _ k v = Inl TypeError"

text \<open>\<^verbatim>\<open>result.update(dk)\<close>: every item of \<open>dk\<close> is stored into \<open>result\<close>, in order.
  \<open>AList.update\<close> is \<^verbatim>\<open>result[k] = v\<close> (replace in place, or append a new key) and
  \<open>AList.delete\<close> is \<^verbatim>\<open>dk.pop(k, None)\<close>.\<close>

definition dict_update :: "dict \<Rightarrow> dict \<Rightarrow> dict" where
  "dict_update result dk = fold (\<lambda>(k, v). AList.update k v) dk result"

section \<open>merge_dictionary\<close>

text \<open>
  \<^verbatim>\<open>merge_dictionary(source, destination)\<close>, lines 13 to 49. \<open>merge_items\<close> is the loop
  \<^verbatim>\<open>for key, value in source.items()\<close> with the two dicts it mutates, \<open>result\<close> and
  \<open>dk\<close>; \<open>merge_list\<close> is the inner loop \<^verbatim>\<open>for idx, item in enumerate(value)\<close>.

  Two things the source does are visible in the equations. First, both
  \<^verbatim>\<open>continue\<close> statements of the list branch skip \<^verbatim>\<open>dk.pop(key, None)\<close>, so the
  final \<^verbatim>\<open>result.update(dk)\<close> stores the destination's value for such a key when the
  destination has the key. Second, \<^verbatim>\<open>result[key] = value\<close> makes the result share the
  source's list, and the inner loop assigns into it only where the source item is a dict;
  \<open>merge_list\<close> returns that list as it stands after the loop.

  The source's lists are mutated in place; the model is pure and returns the new list.
  The two agree when source and destination are trees that share no list, and also in
  the call \<^verbatim>\<open>merge_dictionary(x, x)\<close>, where they are the same object: an iteration
  of the inner loop reads slot \<^verbatim>\<open>idx\<close> of the destination (lines 41 and 44) before
  it assigns slot \<^verbatim>\<open>idx\<close> of the source (line 44), and no later iteration reads
  that slot again.
\<close>

fun merge_dictionary :: "dict \<Rightarrow> json \<Rightarrow> error + dict"
and merge_items :: "dict \<Rightarrow> json \<Rightarrow> dict \<Rightarrow> dict \<Rightarrow> error + dict \<times> dict"
and merge_list :: "json list \<Rightarrow> json \<Rightarrow> nat \<Rightarrow> error + json list"
where
  "merge_dictionary source destination =
     (case py_dict destination of
        Inl e \<Rightarrow> Inl e
      | Inr dk \<Rightarrow>
          (case merge_items source destination [] dk of
             Inl e \<Rightarrow> Inl e
           | Inr (result, dk') \<Rightarrow> Inr (dict_update result dk')))"
| "merge_items [] destination result dk = Inr (result, dk)"
| "merge_items ((key, JDict src) # rest) destination result dk =
     (case py_get destination key (JDict []) of
        Inl e \<Rightarrow> Inl e
      | Inr d \<Rightarrow>
          (case merge_dictionary src d of
             Inl e \<Rightarrow> Inl e
           | Inr m \<Rightarrow>
               merge_items rest destination
                 (AList.update key (JDict m) result) (AList.delete key dk)))"
| "merge_items ((key, JList src) # rest) destination result dk =
     (case py_get destination key (JList []) of
        Inl e \<Rightarrow> Inl e
      | Inr dest_value \<Rightarrow>
          (case py_len dest_value of
             Inl e \<Rightarrow> Inl e
           | Inr dest_len \<Rightarrow>
               if dest_len = 0 then
                 merge_items rest destination (AList.update key (JList src) result) dk
               else if length src > dest_len then
                 Inl (LengthMismatch key (JList src) dest_value)
               else if length src < dest_len then
                 merge_items rest destination (AList.update key dest_value result) dk
               else
                 (case merge_list src dest_value 0 of
                    Inl e \<Rightarrow> Inl e
                  | Inr src' \<Rightarrow>
                      merge_items rest destination
                        (AList.update key (JList src') result) (AList.delete key dk))))"
| "merge_items ((key, scalar) # rest) destination result dk =
     (case py_get destination key scalar of
        Inl e \<Rightarrow> Inl e
      | Inr v \<Rightarrow>
          merge_items rest destination (AList.update key v result) (AList.delete key dk))"
| "merge_list [] dest_value idx = Inr []"
| "merge_list (item # items) dest_value idx =
     (case py_getitem_idx dest_value idx of
        Inl e \<Rightarrow> Inl e
      | Inr d \<Rightarrow>
          if d = JNull then
            map_sum id ((#) item) (merge_list items dest_value (Suc idx))
          else
            (case item of
               JDict src \<Rightarrow>
                 (case merge_dictionary src d of
                    Inl e \<Rightarrow> Inl e
                  | Inr m \<Rightarrow> map_sum id ((#) (JDict m)) (merge_list items dest_value (Suc idx)))
             | _ \<Rightarrow> map_sum id ((#) item) (merge_list items dest_value (Suc idx))))"

text \<open>What \<open>merge_dictionary x x\<close> is proved to return, for a dict and for a list:
  the property carried through the induction on the value.\<close>

definition self_merge_ok :: "json \<Rightarrow> bool" where
  "self_merge_ok v =
     ((\<forall>src. v = JDict src \<longrightarrow> merge_dictionary src (JDict src) = Inr src) \<and>
      (\<forall>sl. v = JList sl \<longrightarrow> merge_list sl (JList sl) 0 = Inr sl))"

section \<open>The transport client and the printer\<close>

text \<open>
  \<^verbatim>\<open>RepRapFirmware\<close> (module \<^verbatim>\<open>duet/api.py\<close>) is the transport client. The printer
  class uses two of its coroutines, \<^verbatim>\<open>rr_model(**kwargs)\<close>, which returns the decoded
  response (a dict with the key \<^verbatim>\<open>result\<close> and possibly \<^verbatim>\<open>next\<close>), and
  \<^verbatim>\<open>rr_reply(nocache=...)\<close>, which returns the reply text. The client is a parameter
  of the model: a pair of functions on a device state \<open>'d\<close> of any type, each returning
  a response or an error together with the next device state. \<open>model_args\<close> are the
  keyword arguments of \<^verbatim>\<open>rr_model\<close>; an argument that a call does not pass is \<open>None\<close>.
\<close>

record model_args =
  key :: string
  depth :: "int option"
  frequently :: "bool option"
  include_null :: "bool option"
  verbose :: "bool option"
  array :: "json option"

record 'd api =
  rr_model :: "model_args \<Rightarrow> 'd \<Rightarrow> (error + dict) \<times> 'd"
  rr_reply :: "bool option \<Rightarrow> 'd \<Rightarrow> (error + string) \<times> 'd"

text \<open>The attributes of \<^verbatim>\<open>DuetPrinter\<close>: \<^verbatim>\<open>om\<close> and \<^verbatim>\<open>seqs\<close> (default
  \<^verbatim>\<open>None\<close>, that is \<open>JNull\<close>), \<^verbatim>\<open>_reply\<close> (default \<^verbatim>\<open>None\<close>) and the flag of
  the event \<^verbatim>\<open>_wait_for_reply\<close>.\<close>

record printer =
  om :: json
  seqs :: json
  reply :: "string option"
  wait_for_reply :: bool

text \<open>
  Input and output are an explicit state: the device state and the trace of what the
  coroutine did, in order. A call of the client is recorded with its arguments and its
  result. \<open>Sleep0 p\<close> records the explicit yield \<^verbatim>\<open>await asyncio.sleep(0)\<close> together
  with the printer attributes that any other task sees at that moment. The coroutines
  are modelled one at a time: no other task writes the printer while one is suspended in
  a client call, and the client does not re-enter the printer (its 503 callback is the
  entry point \<open>http_503_callback\<close> of its own).
\<close>

datatype event =
    Rr_model model_args "error + dict"
  | Rr_reply "bool option" "error + string"
  | Sleep0 printer

record 'd io =
  dev :: 'd
  trace :: "event list"

text \<open>A coroutine returns, raises, or (a recursive fetch that the device never lets
  end) runs out of fuel.\<close>

datatype 'a outcome = Return 'a | Raise error | Diverge

definition call_rr_model :: "'d api \<Rightarrow> model_args \<Rightarrow> 'd io \<Rightarrow> (error + dict) \<times> 'd io" where
  "call_rr_model a args w =
     (case rr_model a args (dev w) of
        (r, d') \<Rightarrow> (r, w\<lparr>dev := d', trace := trace w @ [Rr_model args r]\<rparr>))"

definition call_rr_reply :: "'d api \<Rightarrow> bool option \<Rightarrow> 'd io \<Rightarrow> (error + string) \<times> 'd io" where
  "call_rr_reply a nocache w =
     (case rr_reply a nocache (dev w) of
        (r, d') \<Rightarrow> (r, w\<lparr>dev := d', trace := trace w @ [Rr_reply nocache r]\<rparr>))"

definition sleep0 :: "printer \<Rightarrow> 'd io \<Rightarrow> 'd io" where
  "sleep0 p w = w\<lparr>trace := trace w @ [Sleep0 p]\<rparr>"

subsection \<open>The recursive fetch\<close>

text \<open>
  \<^verbatim>\<open>_fetch_objectmodel_recursive(**kwargs)\<close>, lines 83 to 121. The first argument is
  fuel: the bound on the depth of the recursion, since the device decides how long the
  recursion goes on. \<open>fetch_children\<close> is the loop over
  \<^verbatim>\<open>response['result'].items()\<close>: its arguments are the items still to visit, the
  dict \<^verbatim>\<open>response['result']\<close> as assigned so far, and the response.
\<close>

fun fetch_objectmodel_recursive ::
    "nat \<Rightarrow> 'd api \<Rightarrow> model_args \<Rightarrow> 'd io \<Rightarrow> dict outcome \<times> 'd io"
and fetch_children ::
    "nat \<Rightarrow> 'd api \<Rightarrow> model_args \<Rightarrow> int \<Rightarrow> dict \<Rightarrow> dict \<Rightarrow> dict \<Rightarrow> 'd io \<Rightarrow> dict outcome \<times> 'd io"
where
  "fetch_objectmodel_recursive 0 a kwargs w = (Diverge, w)"
| "fetch_objectmodel_recursive (Suc n) a kwargs w =
     (let depth' = (case depth kwargs of None \<Rightarrow> 1 | Some d \<Rightarrow> d) in
      case call_rr_model a kwargs w of
        (Inl e, w1) \<Rightarrow> (Raise e, w1)
      | (Inr response, w1) \<Rightarrow>
          (case map_of response ''result'' of
             None \<Rightarrow> (Raise KeyError, w1)
           | Some (JDict items) \<Rightarrow> fetch_children n a kwargs depth' items items response w1
           | Some res \<Rightarrow>
               (case map_of response ''next'' of
                  None \<Rightarrow> (Return response, w1)
                | Some nxt \<Rightarrow>
                    (case py_gt0 nxt of
                       Inl e \<Rightarrow> (Raise e, w1)
                     | Inr False \<Rightarrow> (Return response, w1)
                     | Inr True \<Rightarrow>
                         (case fetch_objectmodel_recursive n a (kwargs\<lparr>array := Some nxt\<rparr>) w1 of
                            (Return next_data, w2) \<Rightarrow>
                              (case res of
                                 JList xs \<Rightarrow>
                                   (case map_of next_data ''result'' of
                                      None \<Rightarrow> (Raise KeyError, w2)
                                    | Some page \<Rightarrow>
                                        (case py_extend res page of
                                           Inl e \<Rightarrow> (Raise e, w2)
                                         | Inr res' \<Rightarrow>
                                             (Return (AList.update ''next'' (JNum 0)
                                                (AList.update ''result'' res' response)), w2)))
                               | _ \<Rightarrow> (Raise AttributeError, w2))
                          | (Raise e, w2) \<Rightarrow> (Raise e, w2)
                          | (Diverge, w2) \<Rightarrow> (Diverge, w2))))))"
| "fetch_children n a kwargs depth' [] result response w =
     (Return (AList.update ''result'' (JDict result) response), w)"
| "fetch_children n a kwargs depth' ((k, v) # rest) result response w =
     (let sub_key = (if key kwargs = [] then k else key kwargs @ ''.'' @ k);
          sub_depth = (case v of JDict _ \<Rightarrow> depth' + 1 | _ \<Rightarrow> 99)
      in case fetch_objectmodel_recursive n a
                (kwargs\<lparr>key := sub_key, depth := Some sub_depth\<rparr>) w of
           (Return sub_response, w1) \<Rightarrow>
             (case map_of sub_response ''result'' of
                None \<Rightarrow> (Raise KeyError, w1)
              | Some r \<Rightarrow>
                  fetch_children n a kwargs depth' rest (AList.update k r result) response w1)
         | (Raise e, w1) \<Rightarrow> (Raise e, w1)
         | (Diverge, w1) \<Rightarrow> (Diverge, w1))"

text \<open>\<^verbatim>\<open>_fetch_full_status()\<close>, lines 123 to 132.\<close>

definition fetch_full_status :: "nat \<Rightarrow> 'd api \<Rightarrow> 'd io \<Rightarrow> dict outcome \<times> 'd io" where
  "fetch_full_status fuel a w =
     fetch_objectmodel_recursive fuel a
       \<lparr>key = [], depth = Some 1, frequently = Some False, include_null = Some True,
        verbose = Some True, array = None\<rparr> w"

subsection \<open>tick and its helper\<close>

text \<open>The keyword arguments of the two other calls: the subtree fetch of a changed key
  (lines 163 to 169) and the poll \<^verbatim>\<open>rr_model(key='seqs')\<close> (line 180).\<close>

definition changed_args :: "string \<Rightarrow> model_args" where
  "changed_args k =
     \<lparr>key = k, depth = Some 2, frequently = Some False, include_null = Some True,
      verbose = Some True, array = None\<rparr>"

definition seqs_args :: model_args where
  "seqs_args =
     \<lparr>key = ''seqs'', depth = None, frequently = None, include_null = None,
      verbose = None, array = None\<rparr>"

text \<open>The loop of lines 186 to 188, which fills \<^verbatim>\<open>changes\<close> from the items of the
  polled \<^verbatim>\<open>result['result']\<close> and the stored \<^verbatim>\<open>self.seqs\<close>.\<close>

fun seqs_changes :: "json \<Rightarrow> dict \<Rightarrow> dict \<Rightarrow> error + dict" where
  "seqs_changes stored [] changes = Inr changes"
| "seqs_changes stored ((k, v) # rest) changes =
     (case py_contains stored k of
        Inl e \<Rightarrow> Inl e
      | Inr False \<Rightarrow> seqs_changes stored rest changes
      | Inr True \<Rightarrow>
          (case py_getitem_str stored k of
             Inl e \<Rightarrow> Inl e
           | Inr old \<Rightarrow>
               if \<not> py_eq old v then seqs_changes stored rest (AList.update k v changes)
               else seqs_changes stored rest changes))"

text \<open>The loop \<^verbatim>\<open>for key in changes\<close> of \<^verbatim>\<open>_handle_om_changes\<close>, lines 160 to 170.\<close>

fun fetch_changes ::
    "nat \<Rightarrow> 'd api \<Rightarrow> string list \<Rightarrow> printer \<Rightarrow> 'd io \<Rightarrow> unit outcome \<times> printer \<times> 'd io" where
  "fetch_changes fuel a [] p w = (Return (), p, w)"
| "fetch_changes fuel a (k # rest) p w =
     (if k = ''reply'' then fetch_changes fuel a rest p w
      else
        (case fetch_objectmodel_recursive fuel a (changed_args k) w of
           (Return changed_obj, w1) \<Rightarrow>
             (case map_of changed_obj ''result'' of
                None \<Rightarrow> (Raise KeyError, p, w1)
              | Some r \<Rightarrow>
                  (case py_setitem_str (om p) k r of
                     Inl e \<Rightarrow> (Raise e, p, w1)
                   | Inr om' \<Rightarrow> fetch_changes fuel a rest (p\<lparr>om := om'\<rparr>) w1))
         | (Raise e, w1) \<Rightarrow> (Raise e, p, w1)
         | (Diverge, w1) \<Rightarrow> (Diverge, p, w1)))"

text \<open>
  \<^verbatim>\<open>_handle_om_changes(changes)\<close>, lines 150 to 170. The method mutates its argument
  (\<^verbatim>\<open>changes.pop('volChanges')\<close>), so the dict as the method leaves it is part of the
  result, also when the method raises.
\<close>

definition handle_om_changes ::
    "nat \<Rightarrow> 'd api \<Rightarrow> dict \<Rightarrow> printer \<Rightarrow> 'd io \<Rightarrow> unit outcome \<times> dict \<times> printer \<times> 'd io" where
  "handle_om_changes fuel a changes p w =
     (case (if ''reply'' \<in> set (map fst changes) then
              (case call_rr_reply a None w of
                 (Inl e, w1) \<Rightarrow> (Some e, p, w1)
               | (Inr r, w1) \<Rightarrow>
                   (None, p\<lparr>reply := Some r, wait_for_reply := False\<rparr>,
                    sleep0 (p\<lparr>reply := Some r, wait_for_reply := True\<rparr>) w1))
            else (None, p, w)) of
        (Some e, p1, w1) \<Rightarrow> (Raise e, changes, p1, w1)
      | (None, p1, w1) \<Rightarrow>
          (let changes' = (if ''volChanges'' \<in> set (map fst changes)
                           then AList.delete ''volChanges'' changes else changes)
           in case fetch_changes fuel a (map fst changes') p1 w1 of
                (out, p2, w2) \<Rightarrow> (out, changes', p2, w2)))"

text \<open>
  \<^verbatim>\<open>tick()\<close>, lines 172 to 195. In the branch \<^verbatim>\<open>self.seqs is None\<close> the names
  \<^verbatim>\<open>changes\<close> and \<^verbatim>\<open>self.seqs\<close> are bound to the same dict, so what
  \<^verbatim>\<open>_handle_om_changes\<close> pops from \<^verbatim>\<open>changes\<close> is gone from \<^verbatim>\<open>self.seqs\<close> too:
  the branch stores the dict as the helper left it. In the other branch \<^verbatim>\<open>changes\<close>
  is a fresh dict.
\<close>

definition tick :: "nat \<Rightarrow> 'd api \<Rightarrow> printer \<Rightarrow> 'd io \<Rightarrow> unit outcome \<times> printer \<times> 'd io" where
  "tick fuel a p w =
     (if om p = JNull then
        (case fetch_full_status fuel a w of
           (Return result, w1) \<Rightarrow>
             (case map_of result ''result'' of
                None \<Rightarrow> (Raise KeyError, p, w1)
              | Some r \<Rightarrow> (Return (), p\<lparr>om := r\<rparr>, w1))
         | (Raise e, w1) \<Rightarrow> (Raise e, p, w1)
         | (Diverge, w1) \<Rightarrow> (Diverge, p, w1))
      else
        (case call_rr_model a seqs_args w of
           (Inl e, w1) \<Rightarrow> (Raise e, p, w1)
         | (Inr result, w1) \<Rightarrow>
             if seqs p = JNull then
               (case map_of result ''result'' of
                  None \<Rightarrow> (Raise KeyError, p, w1)
                | Some r \<Rightarrow>
                    if \<not> py_truthy r then (Return (), p\<lparr>seqs := r\<rparr>, w1)
                    else
                      (case r of
                         JDict changes \<Rightarrow>
                           (case handle_om_changes fuel a changes (p\<lparr>seqs := r\<rparr>) w1 of
                              (out, changes', p2, w2) \<Rightarrow>
                                (out, p2\<lparr>seqs := JDict changes'\<rparr>, w2))
                       | JNum n \<Rightarrow> (Raise TypeError, p\<lparr>seqs := r\<rparr>, w1)
                       | _ \<Rightarrow> (Raise Unmodelled, p\<lparr>seqs := r\<rparr>, w1)))
             else
               (case map_of result ''result'' of
                  None \<Rightarrow> (Raise KeyError, p, w1)
                | Some (JDict items) \<Rightarrow>
                    (case seqs_changes (seqs p) items [] of
                       Inl e \<Rightarrow> (Raise e, p, w1)
                     | Inr changes \<Rightarrow>
                         if changes = [] then (Return (), p\<lparr>seqs := JDict items\<rparr>, w1)
                         else
                           (case handle_om_changes fuel a changes (p\<lparr>seqs := JDict items\<rparr>) w1 of
                              (out, changes', p2, w2) \<Rightarrow> (out, p2, w2)))
                | Some _ \<Rightarrow> (Raise AttributeError, p, w1))))"

subsection \<open>The 503 callback\<close>

text \<open>\<^verbatim>\<open>http_503_callback(error)\<close>, lines 197 to 207. \<open>drain n\<close> is the loop
  \<^verbatim>\<open>for _ in range(n)\<close>; its first component is the exception that ended it, if any.\<close>

fun drain :: "nat \<Rightarrow> 'd api \<Rightarrow> printer \<Rightarrow> 'd io \<Rightarrow> error option \<times> printer \<times> 'd io" where
  "drain 0 a p w = (None, p, w)"
| "drain (Suc n) a p w =
     (case call_rr_reply a (Some True) w of
        (Inl e, w1) \<Rightarrow> (Some e, p, w1)
      | (Inr r, w1) \<Rightarrow>
          if r = [] then (None, p, w1)
          else drain n a (p\<lparr>reply := Some r\<rparr>) w1)"

definition http_503_callback ::
    "'d api \<Rightarrow> error \<Rightarrow> printer \<Rightarrow> 'd io \<Rightarrow> unit outcome \<times> printer \<times> 'd io" where
  "http_503_callback a err p w =
     (case drain 10 a p w of
        (Some e, p1, w1) \<Rightarrow> (Raise e, p1, w1)
      | (None, p1, w1) \<Rightarrow>
          (Return (), p1\<lparr>wait_for_reply := False\<rparr>, sleep0 (p1\<lparr>wait_for_reply := True\<rparr>) w1))"

section \<open>Reference definitions for the drain\<close>

text \<open>
  The claims about the drain speak of the sequence of replies the device delivers.
  \<open>replies_delivered a d rs\<close> says that, starting from the device state \<open>d\<close>, the
  successive calls \<^verbatim>\<open>rr_reply(nocache=True)\<close> return the texts \<open>rs\<close>, none of them
  raising. The next three definitions follow the words of the specification, not the
  code: the reads expected of the drain are the replies up to and including the first
  empty one, ten at most, and the reply expected to be retained is the last non-empty
  one of them (the stored reply \<open>old\<close> when there is none).
\<close>

fun replies_delivered :: "'d api \<Rightarrow> 'd \<Rightarrow> string list \<Rightarrow> bool" where
  "replies_delivered a d [] = True"
| "replies_delivered a d (r # rs) =
     (case rr_reply a (Some True) d of
        (Inr s, d1) \<Rightarrow> s = r \<and> replies_delivered a d1 rs
      | (Inl e, d1) \<Rightarrow> False)"

definition upto_first_empty :: "string list \<Rightarrow> string list" where
  "upto_first_empty rs = takeWhile (\<lambda>r. r \<noteq> []) rs @ take 1 (dropWhile (\<lambda>r. r \<noteq> []) rs)"

definition drain_reads :: "string list \<Rightarrow> string list" where
  "drain_reads rs = take 10 (upto_first_empty rs)"

definition last_non_empty :: "string option \<Rightarrow> string list \<Rightarrow> string option" where
  "last_non_empty old reads =
     (case filter (\<lambda>r. r \<noteq> []) reads of [] \<Rightarrow> old | x # xs \<Rightarrow> Some (last (x # xs)))"

section \<open>A scripted device\<close>

text \<open>
  A concrete transport client, for the examples. Its device state is the queue of
  buffered replies: \<^verbatim>\<open>rr_reply\<close> pops the head and returns the empty string when the
  queue is empty. \<^verbatim>\<open>rr_model\<close> answers by key: the root is \<^verbatim>\<open>{'job': {'new': 2}}\<close>,
  the sequence counters are \<^verbatim>\<open>{'job': 3, 'move': 2, 'volChanges': 1}\<close>, the subtree
  \<^verbatim>\<open>job\<close> is \<^verbatim>\<open>{'new': 2}\<close>, the subtree \<^verbatim>\<open>move\<close> cannot be fetched (the transport
  raises), and every other key is the leaf 2.
\<close>

definition demo_api :: "(string list) api" where
  "demo_api =
     \<lparr>rr_model = (\<lambda>args d.
        (if key args = [] then Inr [(''result'', JDict [(''job'', JDict [(''new'', JNum 2)])])]
         else if key args = ''seqs'' then
           Inr [(''result'', JDict [(''job'', JNum 3), (''move'', JNum 2), (''volChanges'', JNum 1)])]
         else if key args = ''job'' then Inr [(''result'', JDict [(''new'', JNum 2)])]
         else if key args = ''move'' then Inl TransportError
         else Inr [(''result'', JNum 2)], d)),
      rr_reply = (\<lambda>nocache d. case d of [] \<Rightarrow> (Inr [], []) | r # rs \<Rightarrow> (Inr r, rs))\<rparr>"

definition polled_seqs :: dict where
  "polled_seqs = [(''job'', JNum 3), (''move'', JNum 2), (''volChanges'', JNum 1)]"

text \<open>Three printers: as constructed, with a baseline and counters behind the device's,
  and with a baseline and counters equal to the device's.\<close>

definition fresh_printer :: printer where
  "fresh_printer = \<lparr>om = JNull, seqs = JNull, reply = None, wait_for_reply = False\<rparr>"

definition stale_printer :: printer where
  "stale_printer =
     \<lparr>om = JDict [(''job'', JDict [(''old'', JNum 1)])],
      seqs = JDict [(''job'', JNum 2), (''move'', JNum 1)],
      reply = Some ''ok'', wait_for_reply = False\<rparr>"

definition synced_printer :: printer where
  "synced_printer =
     \<lparr>om = JDict [(''job'', JDict [(''old'', JNum 1)])],
      seqs = JDict [(''job'', JNum 3), (''move'', JNum 2)],
      reply = None, wait_for_reply = False\<rparr>"

definition idle_io :: "(string list) io" where
  "idle_io = \<lparr>dev = [], trace = []\<rparr>"

definition eleven_replies :: "string list" where
  "eleven_replies = [''r1'', ''r2'', ''r3'', ''r4'', ''r5'', ''r6'', ''r7'', ''r8'', ''r9'',
                     ''r10'', ''r11'']"

section \<open>Properties of merge_dictionary\<close>

subsection \<open>Association lists\<close>

lemma update_fresh: "k \<notin> fst ` set al \<Longrightarrow> AList.update k v al = al @ [(k, v)]"
  by (induction al) auto

lemma dict_update_same:
  "distinct (map fst x) \<Longrightarrow> set dk \<subseteq> set x \<Longrightarrow> dict_update x dk = x"
proof (induction dk)
  case Nil
  then show ?case by (simp add: dict_update_def)
next
  case (Cons kv dk)
  obtain k v where kv: "kv = (k, v)" by (cases kv)
  from Cons.prems kv have "map_of x k = Some v" by simp
  then have "AList.update k v x = x" by (rule update_triv)
  with Cons kv show ?case by (simp add: dict_update_def)
qed

lemma merge_items_append:
  "merge_items (xs @ ys) dest r dk =
     (case merge_items xs dest r dk of
        Inl e \<Rightarrow> Inl e
      | Inr (r', dk') \<Rightarrow> merge_items ys dest r' dk')"
proof (induction xs arbitrary: r dk)
  case Nil
  then show ?case by simp
next
  case (Cons kv xs)
  obtain k v where kv: "kv = (k, v)" by (cases kv)
  show ?case
    by (cases v) (simp_all add: kv Cons.IH split: sum.splits del: merge_dictionary.simps)
qed

subsection \<open>Merging a value with itself\<close>

lemma merge_list_self:
  assumes "\<And>v. v \<in> set xs \<Longrightarrow> self_merge_ok v"
  shows "merge_list (drop i xs) (JList xs) i = Inr (drop i xs)"
proof (induction "length xs - i" arbitrary: i)
  case 0
  then show ?case by simp
next
  case (Suc n)
  then have i: "i < length xs" by simp
  then have d: "drop i xs = xs ! i # drop (Suc i) xs" by (simp add: Cons_nth_drop_Suc)
  from Suc have IH: "merge_list (drop (Suc i) xs) (JList xs) (Suc i) = Inr (drop (Suc i) xs)"
    by simp
  from i assms have ok: "self_merge_ok (xs ! i)" by simp
  show ?case
  proof (cases "xs ! i")
    case (JDict src)
    with ok have "merge_dictionary src (JDict src) = Inr src" by (simp add: self_merge_ok_def)
    with JDict IH i d show ?thesis by simp
  qed (use IH i d in simp_all)
qed

lemma merge_items_self:
  assumes "distinct (map fst (pre @ rest))"
    and "\<And>v. v \<in> snd ` set rest \<Longrightarrow> self_merge_ok v"
  shows "\<exists>dk'. merge_items rest (JDict (pre @ rest)) pre dk = Inr (pre @ rest, dk') \<and>
               set dk' \<subseteq> set dk"
  using assms
proof (induction rest arbitrary: pre dk)
  case Nil
  then show ?case by simp
next
  case (Cons kv rest)
  obtain k v where kv: "kv = (k, v)" by (cases kv)
  let ?x = "pre @ kv # rest"
  from Cons.prems(1) kv have look: "map_of ?x k = Some v"
    by (subst map_of_eq_Some_iff) simp_all
  from Cons.prems(1) kv have fresh: "k \<notin> fst ` set pre" by auto
  have upd: "\<And>u. AList.update k u pre = pre @ [(k, u)]"
    using fresh by (rule update_fresh)
  have d': "distinct (map fst ((pre @ [kv]) @ rest))" using Cons.prems(1) by simp
  have ok': "\<And>u. u \<in> snd ` set rest \<Longrightarrow> self_merge_ok u" using Cons.prems(2) by auto
  have IH: "\<And>dk. \<exists>dk'. merge_items rest (JDict ?x) (pre @ [kv]) dk = Inr (?x, dk') \<and>
                        set dk' \<subseteq> set dk"
    using Cons.IH[OF d' ok'] by simp
  have okv: "self_merge_ok v" using Cons.prems(2) kv by force
  have del: "set (AList.delete k dk) \<subseteq> set dk" by (auto simp: AList.delete_eq)
  show ?case
  proof (cases v)
    case JNull
    from IH[of "AList.delete k dk"] del show ?thesis
      using kv JNull look upd by auto
  next
    case (JNum n)
    from IH[of "AList.delete k dk"] del show ?thesis
      using kv JNum look upd by auto
  next
    case (JStr s)
    from IH[of "AList.delete k dk"] del show ?thesis
      using kv JStr look upd by auto
  next
    case (JList sl)
    from okv JList have m: "merge_list sl (JList sl) 0 = Inr sl"
      by (simp add: self_merge_ok_def)
    show ?thesis
    proof (cases "sl = []")
      case True
      from IH[of dk] show ?thesis using kv JList look upd True by auto
    next
      case False
      from IH[of "AList.delete k dk"] del show ?thesis
        using kv JList look upd False m by auto
    qed
  next
    case (JDict sv)
    from okv JDict have m: "merge_dictionary sv (JDict sv) = Inr sv"
      by (simp add: self_merge_ok_def)
    from IH[of "AList.delete k dk"] del show ?thesis
      using kv JDict look upd m by (auto simp del: merge_dictionary.simps)
  qed
qed

lemma self_merge_ok_all: "wf_json v \<Longrightarrow> self_merge_ok v"
proof (induction v)
  case (JList xs)
  then have "\<And>v. v \<in> set xs \<Longrightarrow> self_merge_ok v" by simp
  from merge_list_self[OF this, where i = 0] show ?case by (simp add: self_merge_ok_def)
next
  case (JDict d)
  have ok: "\<And>v. v \<in> snd ` set d \<Longrightarrow> self_merge_ok v"
  proof -
    fix v assume "v \<in> snd ` set d"
    then obtain k where kv: "(k, v) \<in> set d" by force
    with JDict.prems have "wf_json v" by force
    with JDict.IH kv show "self_merge_ok v" by force
  qed
  from JDict.prems have dist: "distinct (map fst ([] @ d))" by simp
  from merge_items_self[OF dist ok, of d]
  obtain dk' where m: "merge_items d (JDict d) [] d = Inr (d, dk')" and sub: "set dk' \<subseteq> set d"
    by auto
  from JDict.prems have "distinct (map fst d)" by simp
  from dict_update_same[OF this sub] m show ?case by (simp add: self_merge_ok_def)
qed (simp_all add: self_merge_ok_def)

text \<open>
  Claim C8. For every mapping \<open>x\<close> (a dict with distinct keys at every level, as every
  Python dict is), \<^verbatim>\<open>merge_dictionary(x, x)\<close> returns, and returns \<open>x\<close>: same keys in
  the same order with the same values. In particular \<^verbatim>\<open>merge(x, x) == x\<close>.
\<close>

theorem merge_idempotent:
  "wf_json (JDict x) \<Longrightarrow> merge_dictionary x (JDict x) = Inr x"
  using self_merge_ok_all[of "JDict x"] by (simp add: self_merge_ok_def)

theorem merge_idempotent_witness:
  "wf_json (JDict [(''a'', JNum 1), (''b'', JList [JNull, JDict [(''c'', JStr ''x'')]]), (''e'', JList [])]) \<and>
   merge_dictionary [(''a'', JNum 1), (''b'', JList [JNull, JDict [(''c'', JStr ''x'')]]), (''e'', JList [])]
     (JDict [(''a'', JNum 1), (''b'', JList [JNull, JDict [(''c'', JStr ''x'')]]), (''e'', JList [])]) =
   Inr [(''a'', JNum 1), (''b'', JList [JNull, JDict [(''c'', JStr ''x'')]]), (''e'', JList [])]"
  using merge_idempotent [of "[(''a'', JNum 1), (''b'', JList [JNull, JDict [(''c'', JStr ''x'')]]), (''e'', JList [])]"]
  by simp

subsection \<open>Lists of equal length\<close>

text \<open>
  What the inner loop leaves in every slot when it ends without an exception: the result
  has the length of the source list; a slot whose destination element is \<^verbatim>\<open>None\<close>
  holds the source item; a slot whose source item is a dict holds the recursive merge of
  that item with the destination element; every other slot holds the source item.
\<close>

lemma merge_list_slots:
  "merge_list items dv i = Inr r \<Longrightarrow>
   length r = length items \<and>
   (\<forall>j < length items. \<exists>d. py_getitem_idx dv (i + j) = Inr d \<and>
      (if d = JNull then r ! j = items ! j
       else case items ! j of
              JDict src \<Rightarrow> (\<exists>m. merge_dictionary src d = Inr m \<and> r ! j = JDict m)
            | _ \<Rightarrow> r ! j = items ! j))"
proof (induction items arbitrary: i r)
  case Nil
  then show ?case by simp
next
  case (Cons item items)
  from Cons.prems obtain d where d: "py_getitem_idx dv i = Inr d"
    by (auto split: sum.splits)
  from Cons.prems d obtain x r' where r: "r = x # r'" and tl: "merge_list items dv (Suc i) = Inr r'"
    and x: "if d = JNull then x = item
            else case item of JDict src \<Rightarrow> (\<exists>m. merge_dictionary src d = Inr m \<and> x = JDict m)
                 | _ \<Rightarrow> x = item"
    by (cases "merge_list items dv (Suc i)"; cases item)
       (auto split: sum.splits if_splits simp del: merge_dictionary.simps)
  from Cons.IH[OF tl] have len: "length r' = length items"
    and IH: "\<And>j. j < length items \<Longrightarrow> \<exists>d. py_getitem_idx dv (Suc i + j) = Inr d \<and>
      (if d = JNull then r' ! j = items ! j
       else case items ! j of
              JDict src \<Rightarrow> (\<exists>m. merge_dictionary src d = Inr m \<and> r' ! j = JDict m)
            | _ \<Rightarrow> r' ! j = items ! j)"
    by blast+
  show ?case
  proof (intro conjI allI impI)
    show "length r = length (item # items)" using r len by simp
  next
    fix j assume j: "j < length (item # items)"
    show "\<exists>d. py_getitem_idx dv (i + j) = Inr d \<and>
      (if d = JNull then r ! j = (item # items) ! j
       else case (item # items) ! j of
              JDict src \<Rightarrow> (\<exists>m. merge_dictionary src d = Inr m \<and> r ! j = JDict m)
            | _ \<Rightarrow> r ! j = (item # items) ! j)"
    proof (cases j)
      case 0
      with d x r show ?thesis
        by (cases item) (auto simp del: merge_dictionary.simps split: if_splits)
    next
      case (Suc j')
      with j have "j' < length items" by simp
      from IH[OF this] obtain d' where "py_getitem_idx dv (Suc i + j') = Inr d'"
        and "if d' = JNull then r' ! j' = items ! j'
             else case items ! j' of
                    JDict src \<Rightarrow> (\<exists>m. merge_dictionary src d' = Inr m \<and> r' ! j' = JDict m)
                  | _ \<Rightarrow> r' ! j' = items ! j'"
        by blast
      then show ?thesis
        unfolding Suc r
        by (intro exI[of _ d']) (simp del: merge_dictionary.simps split: json.splits)
    qed
  qed
qed

text \<open>
  Claim C2. The claim says that in an element-wise merge of two lists of equal non-zero
  length every slot that is neither null in the destination nor a pair of mappings holds
  the destination's element. The code keeps the source's element there: merging
  \<^verbatim>\<open>{'a': [1]}\<close> into \<^verbatim>\<open>{'a': [2]}\<close> returns \<^verbatim>\<open>{'a': [1]}\<close>, where the claim
  promises \<^verbatim>\<open>{'a': [2]}\<close>.
\<close>

theorem merge_equal_length_scalar_slot:
  "merge_dictionary [(''a'', JList [JNum 1])] (JDict [(''a'', JList [JNum 2])]) =
     Inr [(''a'', JList [JNum 1])]"
  by (simp add: dict_update_def)

subsection \<open>A source list longer than the destination's\<close>

text \<open>
  Claim C3, as amended. When the source holds, under a key, a list strictly longer than
  the non-empty list the destination holds under that key, \<^verbatim>\<open>merge_dictionary\<close> does
  not return a merged result: it raises the length-mismatch \<^verbatim>\<open>ValueError\<close> for that
  key, unless one of the source's earlier keys has already raised, and then that earlier
  exception is the one raised.
\<close>

theorem merge_longer_source_raises:
  assumes "map_of d k = Some (JList dl)" and "dl \<noteq> []" and "length dl < length sl"
  shows "merge_dictionary (pre @ (k, JList sl) # post) (JDict d) =
           (case merge_items pre (JDict d) [] d of
              Inl e \<Rightarrow> Inl e
            | Inr _ \<Rightarrow> Inl (LengthMismatch k (JList sl) (JList dl)))"
  using assms by (simp add: merge_items_append split: sum.splits)

theorem merge_longer_source_raises_witness:
  "map_of [(''a'', JList [JNum 3])] ''a'' = Some (JList [JNum 3]) \<and> [JNum 3] \<noteq> [] \<and>
   length [JNum 3] < length [JNum 1, JNum 2] \<and>
   merge_dictionary ([(''x'', JNum 1)] @ (''a'', JList [JNum 1, JNum 2]) # [(''z'', JNull)])
       (JDict [(''a'', JList [JNum 3])]) =
     Inl (LengthMismatch ''a'' (JList [JNum 1, JNum 2]) (JList [JNum 3]))"
  using merge_longer_source_raises [of "[(''a'', JList [JNum 3])]" "''a''" "[JNum 3]"
      "[JNum 1, JNum 2]" "[(''x'', JNum 1)]" "[(''z'', JNull)]"]
  by simp

text \<open>The claim as stated fails when the destination's list is empty: the source's
  list \<^verbatim>\<open>[1]\<close> is strictly longer than \<^verbatim>\<open>[]\<close>, and the merge returns.\<close>

theorem merge_longer_source_empty_destination:
  "length ([] :: json list) < length [JNum 1] \<and>
   merge_dictionary [(''a'', JList [JNum 1])] (JDict [(''a'', JList [])]) =
     Inr [(''a'', JList [])]"
  by (simp add: dict_update_def)

section \<open>Properties of tick\<close>

lemmas demo_defs = demo_api_def fresh_printer_def stale_printer_def synced_printer_def
  idle_io_def polled_seqs_def seqs_args_def changed_args_def call_rr_model_def
  call_rr_reply_def sleep0_def fetch_full_status_def Let_def

subsection \<open>What the helper leaves alone\<close>

lemma fetch_changes_frame:
  "fetch_changes fuel a ks p w = (out, p', w') \<Longrightarrow>
   seqs p' = seqs p \<and> reply p' = reply p \<and> wait_for_reply p' = wait_for_reply p"
proof (induction ks arbitrary: p w)
  case Nil
  then show ?case by auto
next
  case (Cons k ks)
  show ?case
  proof (cases "k = ''reply''")
    case True
    with Cons show ?thesis by simp
  next
    case False
    with Cons.prems Cons.IH show ?thesis
      by (auto split: prod.splits outcome.splits option.splits sum.splits)
  qed
qed

lemma handle_om_changes_seqs:
  "handle_om_changes fuel a changes p w = (out, c', p', w') \<Longrightarrow> seqs p' = seqs p"
  unfolding handle_om_changes_def Let_def
  by (auto split: prod.splits option.splits sum.splits if_splits dest: fetch_changes_frame)

lemma fetch_changes_om_other:
  "fetch_changes fuel a ks p w = (out, p', w') \<Longrightarrow> k \<notin> set ks \<Longrightarrow>
   py_getitem_str (om p') k = py_getitem_str (om p) k"
proof (induction ks arbitrary: p w)
  case Nil
  then show ?case by simp
next
  case (Cons k' ks)
  from Cons.prems(2) have ne: "k \<noteq> k'" and notin: "k \<notin> set ks" by auto
  show ?case
  proof (cases "k' = ''reply''")
    case True
    with Cons.prems(1) Cons.IH[OF _ notin] show ?thesis by simp
  next
    case False
    have step: "\<And>r om'. py_setitem_str (om p) k' r = Inr om' \<Longrightarrow>
                  py_getitem_str om' k = py_getitem_str (om p) k"
      using ne by (cases "om p") (auto simp: update_conv')
    from False Cons.prems(1) Cons.IH[OF _ notin] step show ?thesis
      by (auto split: prod.splits outcome.splits option.splits sum.splits)
  qed
qed

lemma fetch_changes_step:
  assumes "fetch_changes fuel a (k # ks) p w = (Return (), p', w')"
  shows "\<exists>p1 w1. fetch_changes fuel a [k] p w = (Return (), p1, w1) \<and>
                 fetch_changes fuel a ks p1 w1 = (Return (), p', w')"
  using assms
  by (cases "k = ''reply''")
     (auto split: prod.splits outcome.splits option.splits sum.splits)

lemma fetch_changes_append:
  "fetch_changes fuel a xs p w = (Return (), p1, w1) \<Longrightarrow>
   fetch_changes fuel a (xs @ ys) p w = fetch_changes fuel a ys p1 w1"
proof (induction xs arbitrary: p w)
  case Nil
  then show ?case by simp
next
  case (Cons x xs)
  from fetch_changes_step[OF Cons.prems] obtain p2 w2 where
    one: "fetch_changes fuel a [x] p w = (Return (), p2, w2)"
    and rest: "fetch_changes fuel a xs p2 w2 = (Return (), p1, w1)" by blast
  from one have "fetch_changes fuel a (x # xs @ ys) p w = fetch_changes fuel a (xs @ ys) p2 w2"
    by (cases "x = ''reply''")
       (auto split: prod.splits outcome.splits option.splits sum.splits)
  with Cons.IH[OF rest] show ?case by simp
qed

subsection \<open>Counters only with a baseline\<close>

text \<open>
  A printer is constructed with \<^verbatim>\<open>om\<close> and \<^verbatim>\<open>seqs\<close> both \<^verbatim>\<open>None\<close>, and
  \<^verbatim>\<open>tick\<close> keeps the following true, however it ends: a printer that has counters has
  a baseline. The theorems about the polling branch of \<^verbatim>\<open>tick\<close> therefore assume a
  baseline.
\<close>

lemma fetch_changes_om_defined:
  "fetch_changes fuel a ks p w = (out, p', w') \<Longrightarrow> om p \<noteq> JNull \<Longrightarrow> om p' \<noteq> JNull"
proof (induction ks arbitrary: p w)
  case Nil
  then show ?case by simp
next
  case (Cons k ks)
  have step: "\<And>r om'. py_setitem_str (om p) k r = Inr om' \<Longrightarrow> om' \<noteq> JNull"
    by (cases "om p") auto
  show ?case
  proof (cases "k = ''reply''")
    case True
    with Cons show ?thesis by simp
  next
    case False
    with Cons.prems Cons.IH step show ?thesis
      by (auto split: prod.splits outcome.splits option.splits sum.splits)
  qed
qed

lemma handle_om_changes_om_defined:
  "handle_om_changes fuel a changes p w = (out, c', p', w') \<Longrightarrow> om p \<noteq> JNull \<Longrightarrow>
   om p' \<noteq> JNull"
  unfolding handle_om_changes_def Let_def
  by (auto split: prod.splits option.splits sum.splits if_splits
      dest!: fetch_changes_om_defined)

lemma tick_baseline_before_counters:
  assumes "seqs p \<noteq> JNull \<longrightarrow> om p \<noteq> JNull" and "tick fuel a p w = (out, p', w')"
  shows "seqs p' \<noteq> JNull \<longrightarrow> om p' \<noteq> JNull"
proof (cases "om p = JNull")
  case True
  with assms(1) have "seqs p = JNull" by auto
  with True assms(2) show ?thesis
    unfolding tick_def by (auto split: prod.splits outcome.splits option.splits)
next
  case False
  with assms(2) have "om p' \<noteq> JNull"
    unfolding tick_def
    by (auto split: prod.splits sum.splits option.splits json.splits if_splits
        dest: handle_om_changes_om_defined)
  then show ?thesis by simp
qed

subsection \<open>The first tick\<close>

text \<open>
  Claim C1, as amended. For every printer whose \<^verbatim>\<open>om\<close> is \<^verbatim>\<open>None\<close>, a call of
  \<^verbatim>\<open>tick()\<close> that returns has performed the full recursive fetch and has set \<^verbatim>\<open>om\<close>
  to the \<^verbatim>\<open>result\<close> of that fetch; every other attribute, \<^verbatim>\<open>seqs\<close> included, is as
  it was before the call.
\<close>

theorem tick_initial_fetch:
  assumes "om p = JNull" and "tick fuel a p w = (Return (), p', w')"
  shows "(\<exists>result. fetch_full_status fuel a w = (Return result, w') \<and>
                   map_of result ''result'' = Some (om p')) \<and>
         p' = p\<lparr>om := om p'\<rparr>"
  using assms unfolding tick_def
  by (auto split: prod.splits outcome.splits option.splits)

theorem tick_initial_fetch_witness:
  "om fresh_printer = JNull \<and>
   tick (Suc (Suc (Suc 0))) demo_api fresh_printer idle_io =
     (Return (), fresh_printer\<lparr>om := JDict [(''job'', JDict [(''new'', JNum 2)])]\<rparr>,
      idle_io\<lparr>trace :=
        [Rr_model ((changed_args [])\<lparr>depth := Some 1\<rparr>)
           (Inr [(''result'', JDict [(''job'', JDict [(''new'', JNum 2)])])]),
         Rr_model (changed_args ''job'') (Inr [(''result'', JDict [(''new'', JNum 2)])]),
         Rr_model ((changed_args ''job.new'')\<lparr>depth := Some 99\<rparr>) (Inr [(''result'', JNum 2)])]\<rparr>) \<and>
   (\<exists>result. fetch_full_status (Suc (Suc (Suc 0))) demo_api idle_io =
      (Return result, idle_io\<lparr>trace :=
        [Rr_model ((changed_args [])\<lparr>depth := Some 1\<rparr>)
           (Inr [(''result'', JDict [(''job'', JDict [(''new'', JNum 2)])])]),
         Rr_model (changed_args ''job'') (Inr [(''result'', JDict [(''new'', JNum 2)])]),
         Rr_model ((changed_args ''job.new'')\<lparr>depth := Some 99\<rparr>) (Inr [(''result'', JNum 2)])]\<rparr>) \<and>
      map_of result ''result'' = Some (JDict [(''job'', JDict [(''new'', JNum 2)])])) \<and>
   seqs (fresh_printer\<lparr>om := JDict [(''job'', JDict [(''new'', JNum 2)])]\<rparr>) = JNull"
proof -
  have h1: "om fresh_printer = JNull" by (simp add: fresh_printer_def)
  have h2: "tick (Suc (Suc (Suc 0))) demo_api fresh_printer idle_io =
     (Return (), fresh_printer\<lparr>om := JDict [(''job'', JDict [(''new'', JNum 2)])]\<rparr>,
      idle_io\<lparr>trace :=
        [Rr_model ((changed_args [])\<lparr>depth := Some 1\<rparr>)
           (Inr [(''result'', JDict [(''job'', JDict [(''new'', JNum 2)])])]),
         Rr_model (changed_args ''job'') (Inr [(''result'', JDict [(''new'', JNum 2)])]),
         Rr_model ((changed_args ''job.new'')\<lparr>depth := Some 99\<rparr>) (Inr [(''result'', JNum 2)])]\<rparr>)"
    by (simp add: tick_def demo_defs)
  from tick_initial_fetch[OF h1 h2] h1 h2 show ?thesis
    by (simp add: fresh_printer_def)
qed

text \<open>The claim as stated fails on a printer as constructed: after its first tick
  \<^verbatim>\<open>om\<close> is defined and \<^verbatim>\<open>seqs\<close> is still \<^verbatim>\<open>None\<close>.\<close>

theorem tick_initial_fetch_leaves_seqs_undefined:
  "om fresh_printer = JNull \<and> seqs fresh_printer = JNull \<and>
   fst (tick (Suc (Suc (Suc 0))) demo_api fresh_printer idle_io) = Return () \<and>
   om (fst (snd (tick (Suc (Suc (Suc 0))) demo_api fresh_printer idle_io))) =
     JDict [(''job'', JDict [(''new'', JNum 2)])] \<and>
   seqs (fst (snd (tick (Suc (Suc (Suc 0))) demo_api fresh_printer idle_io))) = JNull"
  by (simp add: tick_def demo_defs)

subsection \<open>The changed set\<close>

lemma seqs_changes_filter:
  "distinct (map fst items) \<Longrightarrow> fst ` set acc \<inter> fst ` set items = {} \<Longrightarrow>
   seqs_changes (JDict stored) items acc =
     Inr (acc @ filter (\<lambda>(k, v). case map_of stored k of None \<Rightarrow> False
                                 | Some old \<Rightarrow> \<not> py_eq old v) items)"
proof (induction items arbitrary: acc)
  case Nil
  then show ?case by simp
next
  case (Cons kv items)
  obtain k v where kv: "kv = (k, v)" by (cases kv)
  from Cons.prems kv have fresh: "k \<notin> fst ` set acc" by auto
  have upd: "AList.update k v acc = acc @ [(k, v)]" using fresh by (rule update_fresh)
  from Cons.prems kv have d: "distinct (map fst items)" by simp
  from Cons.prems kv have dis1: "fst ` set acc \<inter> fst ` set items = {}" by auto
  from Cons.prems kv have dis2: "fst ` set (acc @ [(k, v)]) \<inter> fst ` set items = {}" by auto
  show ?case
  proof (cases "map_of stored k")
    case None
    then have "k \<notin> fst ` set stored" by (simp add: map_of_eq_None_iff)
    with None kv Cons.IH[OF d dis1] show ?thesis by simp
  next
    case (Some old)
    then have "k \<in> fst ` set stored" by (metis map_of_eq_None_iff option.distinct(1))
    with Some kv Cons.IH[OF d dis1] Cons.IH[OF d dis2] upd show ?thesis by simp
  qed
qed

text \<open>
  Claim C7. Take a tick with a baseline, stored counters that are a mapping, and a poll
  that returns a mapping \<open>items\<close> (a dict: its keys are distinct). Then there is a
  changed set such that a pair
  \<open>(k, v)\<close> is in it exactly when \<open>v\<close> is the polled value of \<open>k\<close>, the stored
  counters have \<open>k\<close>, and the stored value differs from \<open>v\<close> (so a key that only the
  poll has is not in it); and the tick does the following with it. When it is empty the
  tick returns, having stored the polled counters and made the poll its only call, with
  \<^verbatim>\<open>om\<close> unchanged. Otherwise it hands the set to \<^verbatim>\<open>_handle_om_changes\<close>.
\<close>

theorem tick_changed_set:
  assumes "om p \<noteq> JNull" and "seqs p = JDict stored"
    and "rr_model a seqs_args (dev w) = (Inr result, d')"
    and "map_of result ''result'' = Some (JDict items)"
    and "distinct (map fst items)"
  shows "\<exists>changes.
      (\<forall>k v. (k, v) \<in> set changes \<longleftrightarrow>
          (k, v) \<in> set items \<and> (\<exists>old. map_of stored k = Some old \<and> \<not> py_eq old v)) \<and>
      tick fuel a p w =
        (if changes = [] then
           (Return (), p\<lparr>seqs := JDict items\<rparr>,
            w\<lparr>dev := d', trace := trace w @ [Rr_model seqs_args (Inr result)]\<rparr>)
         else
           (case handle_om_changes fuel a changes (p\<lparr>seqs := JDict items\<rparr>)
                   (w\<lparr>dev := d', trace := trace w @ [Rr_model seqs_args (Inr result)]\<rparr>) of
              (out, c', p2, w2) \<Rightarrow> (out, p2, w2)))"
proof -
  let ?changes = "filter (\<lambda>(k, v). case map_of stored k of None \<Rightarrow> False
                                 | Some old \<Rightarrow> \<not> py_eq old v) items"
  have sc: "seqs_changes (seqs p) items [] = Inr ?changes"
    using seqs_changes_filter[OF assms(5), of "[]" stored] assms(2) by simp
  have iff: "\<forall>k v. (k, v) \<in> set ?changes \<longleftrightarrow>
          (k, v) \<in> set items \<and> (\<exists>old. map_of stored k = Some old \<and> \<not> py_eq old v)"
    by (auto split: option.splits)
  have t: "tick fuel a p w =
        (if ?changes = [] then
           (Return (), p\<lparr>seqs := JDict items\<rparr>,
            w\<lparr>dev := d', trace := trace w @ [Rr_model seqs_args (Inr result)]\<rparr>)
         else
           (case handle_om_changes fuel a ?changes (p\<lparr>seqs := JDict items\<rparr>)
                   (w\<lparr>dev := d', trace := trace w @ [Rr_model seqs_args (Inr result)]\<rparr>) of
              (out, c', p2, w2) \<Rightarrow> (out, p2, w2)))"
    using assms(1-4) sc by (simp add: tick_def call_rr_model_def)
  from iff t show ?thesis by blast
qed

theorem tick_changed_set_witness:
  "om synced_printer \<noteq> JNull \<and>
   seqs synced_printer = JDict [(''job'', JNum 3), (''move'', JNum 2)] \<and>
   rr_model demo_api seqs_args (dev idle_io) = (Inr [(''result'', JDict polled_seqs)], []) \<and>
   map_of [(''result'', JDict polled_seqs)] ''result'' = Some (JDict polled_seqs) \<and>
   distinct (map fst polled_seqs) \<and>
   (\<exists>changes.
      (\<forall>k v. (k, v) \<in> set changes \<longleftrightarrow>
          (k, v) \<in> set polled_seqs \<and>
          (\<exists>old. map_of [(''job'', JNum 3), (''move'', JNum 2)] k = Some old \<and> \<not> py_eq old v)) \<and>
      tick (Suc (Suc (Suc 0))) demo_api synced_printer idle_io =
        (if changes = [] then
           (Return (), synced_printer\<lparr>seqs := JDict polled_seqs\<rparr>,
            idle_io\<lparr>dev := [], trace := trace idle_io @
               [Rr_model seqs_args (Inr [(''result'', JDict polled_seqs)])]\<rparr>)
         else
           (case handle_om_changes (Suc (Suc (Suc 0))) demo_api changes
                   (synced_printer\<lparr>seqs := JDict polled_seqs\<rparr>)
                   (idle_io\<lparr>dev := [], trace := trace idle_io @
                      [Rr_model seqs_args (Inr [(''result'', JDict polled_seqs)])]\<rparr>) of
              (out, c', p2, w2) \<Rightarrow> (out, p2, w2)))) \<and>
   tick (Suc (Suc (Suc 0))) demo_api synced_printer idle_io =
     (Return (), synced_printer\<lparr>seqs := JDict polled_seqs\<rparr>,
      idle_io\<lparr>trace := [Rr_model seqs_args (Inr [(''result'', JDict polled_seqs)])]\<rparr>)"
proof -
  have h1: "om synced_printer \<noteq> JNull" by (simp add: synced_printer_def)
  have h2: "seqs synced_printer = JDict [(''job'', JNum 3), (''move'', JNum 2)]"
    by (simp add: synced_printer_def)
  have h3: "rr_model demo_api seqs_args (dev idle_io) = (Inr [(''result'', JDict polled_seqs)], [])"
    by (simp add: demo_defs)
  have h4: "map_of [(''result'', JDict polled_seqs)] ''result'' = Some (JDict polled_seqs)"
    by simp
  have h5: "distinct (map fst polled_seqs)" by (simp add: polled_seqs_def)
  have e: "tick (Suc (Suc (Suc 0))) demo_api synced_printer idle_io =
     (Return (), synced_printer\<lparr>seqs := JDict polled_seqs\<rparr>,
      idle_io\<lparr>trace := [Rr_model seqs_args (Inr [(''result'', JDict polled_seqs)])]\<rparr>)"
    by (simp add: tick_def demo_defs)
  from tick_changed_set[OF h1 h2 h3 h4 h5, of "Suc (Suc (Suc 0))"] h1 h2 h3 h4 h5 e
  show ?thesis by blast
qed

subsection \<open>A subtree fetch that fails\<close>

text \<open>
  Claim C4, as amended. Take a tick with a baseline, stored counters that are a mapping,
  and a poll that returns a mapping. However the tick ends, and in particular when a
  subtree fetch for a changed key raises a transport error, the stored counters after
  the tick are the polled ones: the counter of the key that failed to fetch has been
  advanced with the others.
\<close>

theorem tick_stores_polled_seqs:
  assumes "om p \<noteq> JNull" and "seqs p = JDict stored"
    and "rr_model a seqs_args (dev w) = (Inr result, d')"
    and "map_of result ''result'' = Some (JDict items)"
    and "tick fuel a p w = (out, p', w')"
  shows "seqs p' = JDict items"
proof -
  from assms(2) have "\<exists>c. seqs_changes (seqs p) items [] = Inr c"
  proof -
    have "\<And>acc. \<exists>c. seqs_changes (JDict stored) items acc = Inr c"
    proof (induction items)
      case Nil
      then show ?case by simp
    next
      case (Cons kv items)
      obtain k v where kv: "kv = (k, v)" by (cases kv)
      show ?case
      proof (cases "map_of stored k")
        case None
        then have "k \<notin> fst ` set stored" by (simp add: map_of_eq_None_iff)
        with None kv Cons.IH show ?thesis by simp
      next
        case (Some old)
        then have "k \<in> fst ` set stored" by (metis map_of_eq_None_iff option.distinct(1))
        with Some kv Cons.IH show ?thesis by simp
      qed
    qed
    with assms(2) show ?thesis by simp
  qed
  then obtain c where c: "seqs_changes (seqs p) items [] = Inr c" ..
  show ?thesis
  proof (cases "c = []")
    case True
    with assms c show ?thesis
      by (auto simp: tick_def call_rr_model_def)
  next
    case False
    with assms c show ?thesis
      by (auto simp: tick_def call_rr_model_def split: prod.splits dest: handle_om_changes_seqs)
  qed
qed

lemma tick_stale:
  "tick (Suc (Suc (Suc 0))) demo_api stale_printer idle_io =
     (Raise TransportError,
      stale_printer\<lparr>om := JDict [(''job'', JDict [(''new'', JNum 2)])], seqs := JDict polled_seqs\<rparr>,
      idle_io\<lparr>trace :=
        [Rr_model seqs_args (Inr [(''result'', JDict polled_seqs)]),
         Rr_model (changed_args ''job'') (Inr [(''result'', JDict [(''new'', JNum 2)])]),
         Rr_model ((changed_args ''job.new'')\<lparr>depth := Some 99\<rparr>) (Inr [(''result'', JNum 2)]),
         Rr_model (changed_args ''move'') (Inl TransportError)]\<rparr>)"
  by (simp add: tick_def handle_om_changes_def demo_defs)

theorem tick_stores_polled_seqs_witness:
  "om stale_printer \<noteq> JNull \<and>
   seqs stale_printer = JDict [(''job'', JNum 2), (''move'', JNum 1)] \<and>
   rr_model demo_api seqs_args (dev idle_io) = (Inr [(''result'', JDict polled_seqs)], []) \<and>
   map_of [(''result'', JDict polled_seqs)] ''result'' = Some (JDict polled_seqs) \<and>
   tick (Suc (Suc (Suc 0))) demo_api stale_printer idle_io =
     (Raise TransportError,
      stale_printer\<lparr>om := JDict [(''job'', JDict [(''new'', JNum 2)])], seqs := JDict polled_seqs\<rparr>,
      idle_io\<lparr>trace :=
        [Rr_model seqs_args (Inr [(''result'', JDict polled_seqs)]),
         Rr_model (changed_args ''job'') (Inr [(''result'', JDict [(''new'', JNum 2)])]),
         Rr_model ((changed_args ''job.new'')\<lparr>depth := Some 99\<rparr>) (Inr [(''result'', JNum 2)]),
         Rr_model (changed_args ''move'') (Inl TransportError)]\<rparr>) \<and>
   seqs (stale_printer\<lparr>om := JDict [(''job'', JDict [(''new'', JNum 2)])],
                        seqs := JDict polled_seqs\<rparr>) = JDict polled_seqs"
proof -
  have h1: "om stale_printer \<noteq> JNull" by (simp add: stale_printer_def)
  have h2: "seqs stale_printer = JDict [(''job'', JNum 2), (''move'', JNum 1)]"
    by (simp add: stale_printer_def)
  have h3: "rr_model demo_api seqs_args (dev idle_io) = (Inr [(''result'', JDict polled_seqs)], [])"
    by (simp add: demo_defs)
  have h4: "map_of [(''result'', JDict polled_seqs)] ''result'' = Some (JDict polled_seqs)"
    by simp
  from tick_stores_polled_seqs[OF h1 h2 h3 h4 tick_stale] h1 h2 h3 h4 tick_stale
  show ?thesis by blast
qed

text \<open>The claim as stated fails on the scripted device: the fetch of \<^verbatim>\<open>move\<close> raises,
  the stored counter of \<^verbatim>\<open>move\<close> was 1, and after the tick it is the polled 2.\<close>

theorem tick_failed_fetch_advances_seqs:
  "fst (tick (Suc (Suc (Suc 0))) demo_api stale_printer idle_io) = Raise TransportError \<and>
   last (trace (snd (snd (tick (Suc (Suc (Suc 0))) demo_api stale_printer idle_io)))) =
     Rr_model (changed_args ''move'') (Inl TransportError) \<and>
   py_getitem_str (seqs stale_printer) ''move'' = Inr (JNum 1) \<and>
   py_getitem_str (seqs (fst (snd (tick (Suc (Suc (Suc 0))) demo_api stale_printer idle_io))))
     ''move'' = Inr (JNum 2)"
  by (simp add: tick_def handle_om_changes_def demo_defs)

subsection \<open>The loop over the changed keys\<close>

text \<open>A fetch that returns has a \<^verbatim>\<open>result\<close> in its response: line 170 reads it
  without a \<^verbatim>\<open>KeyError\<close>.\<close>

lemma fetch_children_result:
  "fetch_children n a kwargs dp items res resp w = (Return obj, w') \<Longrightarrow>
   \<exists>r. map_of obj ''result'' = Some r"
proof (induction items arbitrary: res w)
  case Nil
  then show ?case by (auto simp: update_conv')
next
  case (Cons kv items)
  obtain k v where kv: "kv = (k, v)" by (cases kv)
  from Cons.prems kv obtain res1 w1 where
    "fetch_children n a kwargs dp items res1 resp w1 = (Return obj, w')"
    by (auto simp: Let_def split: prod.splits outcome.splits option.splits)
  then show ?case by (rule Cons.IH)
qed

lemma fetch_result:
  assumes "fetch_objectmodel_recursive n a kwargs w = (Return obj, w')"
  shows "\<exists>r. map_of obj ''result'' = Some r"
proof (cases n)
  case 0
  with assms show ?thesis by simp
next
  case (Suc m)
  obtain r w1 where c: "call_rr_model a kwargs w = (r, w1)"
    by (cases "call_rr_model a kwargs w")
  show ?thesis
  proof (cases r)
    case (Inl e)
    with assms Suc c show ?thesis by (simp add: Let_def)
  next
    case (Inr response)
    show ?thesis
    proof (cases "map_of response ''result''")
      case None
      with assms Suc c Inr show ?thesis by (simp add: Let_def)
    next
      case (Some res)
      show ?thesis
      proof (cases "\<exists>items. res = JDict items")
        case True
        then obtain items where "res = JDict items" ..
        with assms Suc c Inr Some show ?thesis
          by (auto simp: Let_def dest: fetch_children_result)
      next
        case False
        have same: "obj = response \<Longrightarrow> ?thesis" using Some by simp
        have upd: "\<And>res'. obj = AList.update ''next'' (JNum 0)
                     (AList.update ''result'' res' response) \<Longrightarrow> ?thesis"
          by (simp add: update_conv')
        from assms Suc c Inr Some False
        have "obj = response \<or>
              (\<exists>res'. obj = AList.update ''next'' (JNum 0) (AList.update ''result'' res' response))"
          by (cases res)
             (auto simp: Let_def
                split: prod.splits outcome.splits option.splits sum.splits bool.splits json.splits)
        with same upd show ?thesis by blast
      qed
    qed
  qed
qed

text \<open>
  Claim C9. Let the loop of \<^verbatim>\<open>_handle_om_changes\<close> reach a changed key \<open>k\<close> other
  than \<^verbatim>\<open>reply\<close> (the keys before it were processed without an exception), and let
  the fetch of the subtree of \<open>k\<close> (at depth 2) return. Then, however the loop goes on
  after that (it returns, a later key raises, or a later fetch never ends), \<^verbatim>\<open>om[k]\<close>
  is in the end exactly the \<^verbatim>\<open>result\<close> of that fetch: the value is assigned, not
  merged with what the baseline held under \<open>k\<close>. The one other case is a baseline that
  is not a mapping: there the assignment of line 170 raises \<^verbatim>\<open>TypeError\<close> and the
  printer stays as it was when the loop reached \<open>k\<close>.
\<close>

theorem fetch_changes_overwrites:
  assumes "fetch_changes fuel a pre p w = (Return (), p0, w0)"
    and "fetch_objectmodel_recursive fuel a (changed_args k) w0 = (Return obj, w1)"
    and "k \<noteq> ''reply''" and "k \<notin> set post"
    and "fetch_changes fuel a (pre @ k # post) p w = (out, p', w')"
  shows "\<exists>r. map_of obj ''result'' = Some r \<and>
             (case om p0 of
                JDict d \<Rightarrow> py_getitem_str (om p') k = Inr r
              | _ \<Rightarrow> out = Raise TypeError \<and> p' = p0)"
proof -
  from fetch_result[OF assms(2)] obtain r where r: "map_of obj ''result'' = Some r" ..
  from fetch_changes_append[OF assms(1), of "k # post"] assms(5)
  have run: "fetch_changes fuel a (k # post) p0 w0 = (out, p', w')" by simp
  show ?thesis
  proof (cases "\<exists>d. om p0 = JDict d")
    case True
    then obtain d where d: "om p0 = JDict d" ..
    from run assms(2,3) r d
    have rest: "fetch_changes fuel a post (p0\<lparr>om := JDict (AList.update k r d)\<rparr>) w1 = (out, p', w')"
      by simp
    from fetch_changes_om_other[OF rest assms(4)]
    have "py_getitem_str (om p') k = Inr r" by (simp add: update_conv')
    with r d show ?thesis by simp
  next
    case False
    then have s: "\<And>v. py_setitem_str (om p0) k v = Inl TypeError" by (cases "om p0") auto
    from run assms(2,3) r s have "out = Raise TypeError \<and> p' = p0" by simp
    with r False show ?thesis by (cases "om p0") auto
  qed
qed

lemma loop_job_move:
  "fetch_changes (Suc (Suc 0)) demo_api ([''reply''] @ ''job'' # [''move'']) stale_printer idle_io =
     (Raise TransportError,
      stale_printer\<lparr>om := JDict [(''job'', JDict [(''new'', JNum 2)])]\<rparr>,
      idle_io\<lparr>trace :=
        [Rr_model (changed_args ''job'') (Inr [(''result'', JDict [(''new'', JNum 2)])]),
         Rr_model ((changed_args ''job.new'')\<lparr>depth := Some 99\<rparr>) (Inr [(''result'', JNum 2)]),
         Rr_model (changed_args ''move'') (Inl TransportError)]\<rparr>)"
  by (simp add: demo_defs)

theorem fetch_changes_overwrites_witness:
  "fetch_changes (Suc (Suc 0)) demo_api [''reply''] stale_printer idle_io =
     (Return (), stale_printer, idle_io) \<and>
   fetch_objectmodel_recursive (Suc (Suc 0)) demo_api (changed_args ''job'') idle_io =
     (Return [(''result'', JDict [(''new'', JNum 2)])],
      idle_io\<lparr>trace :=
        [Rr_model (changed_args ''job'') (Inr [(''result'', JDict [(''new'', JNum 2)])]),
         Rr_model ((changed_args ''job.new'')\<lparr>depth := Some 99\<rparr>) (Inr [(''result'', JNum 2)])]\<rparr>) \<and>
   ''job'' \<noteq> ''reply'' \<and> ''job'' \<notin> set [''move''] \<and>
   fetch_changes (Suc (Suc 0)) demo_api ([''reply''] @ ''job'' # [''move'']) stale_printer idle_io =
     (Raise TransportError,
      stale_printer\<lparr>om := JDict [(''job'', JDict [(''new'', JNum 2)])]\<rparr>,
      idle_io\<lparr>trace :=
        [Rr_model (changed_args ''job'') (Inr [(''result'', JDict [(''new'', JNum 2)])]),
         Rr_model ((changed_args ''job.new'')\<lparr>depth := Some 99\<rparr>) (Inr [(''result'', JNum 2)]),
         Rr_model (changed_args ''move'') (Inl TransportError)]\<rparr>) \<and>
   om stale_printer = JDict [(''job'', JDict [(''old'', JNum 1)])] \<and>
   (\<exists>r. map_of [(''result'', JDict [(''new'', JNum 2)])] ''result'' = Some r \<and>
        py_getitem_str
          (om (stale_printer\<lparr>om := JDict [(''job'', JDict [(''new'', JNum 2)])]\<rparr>)) ''job'' = Inr r) \<and>
   py_getitem_str (om (stale_printer\<lparr>om := JDict [(''job'', JDict [(''new'', JNum 2)])]\<rparr>)) ''job'' =
     Inr (JDict [(''new'', JNum 2)]) \<and>
   merge_dictionary [(''old'', JNum 1)] (JDict [(''new'', JNum 2)]) =
     Inr [(''old'', JNum 1), (''new'', JNum 2)]"
proof -
  have h1: "fetch_changes (Suc (Suc 0)) demo_api [''reply''] stale_printer idle_io =
     (Return (), stale_printer, idle_io)" by simp
  have h2: "fetch_objectmodel_recursive (Suc (Suc 0)) demo_api (changed_args ''job'') idle_io =
     (Return [(''result'', JDict [(''new'', JNum 2)])],
      idle_io\<lparr>trace :=
        [Rr_model (changed_args ''job'') (Inr [(''result'', JDict [(''new'', JNum 2)])]),
         Rr_model ((changed_args ''job.new'')\<lparr>depth := Some 99\<rparr>) (Inr [(''result'', JNum 2)])]\<rparr>)"
    by (simp add: demo_defs)
  have h3: "''job'' \<noteq> ''reply''" by simp
  have h4: "''job'' \<notin> set [''move'']" by simp
  have b: "om stale_printer = JDict [(''job'', JDict [(''old'', JNum 1)])]"
    by (simp add: stale_printer_def)
  have e2: "py_getitem_str (om (stale_printer\<lparr>om := JDict [(''job'', JDict [(''new'', JNum 2)])]\<rparr>)) ''job'' =
     Inr (JDict [(''new'', JNum 2)])" by simp
  have e3: "merge_dictionary [(''old'', JNum 1)] (JDict [(''new'', JNum 2)]) =
     Inr [(''old'', JNum 1), (''new'', JNum 2)]" by (simp add: dict_update_def)
  from fetch_changes_overwrites[OF h1 h2 h3 h4 loop_job_move] b
  have c: "\<exists>r. map_of [(''result'', JDict [(''new'', JNum 2)])] ''result'' = Some r \<and>
        py_getitem_str
          (om (stale_printer\<lparr>om := JDict [(''job'', JDict [(''new'', JNum 2)])]\<rparr>)) ''job'' = Inr r"
    by simp
  from h1 h2 h3 h4 loop_job_move b c e2 e3 show ?thesis by blast
qed

text \<open>When the whole loop returns, it has reached every one of its keys, and the fetch
  of each key other than \<^verbatim>\<open>reply\<close> has returned.\<close>

lemma fetch_changes_returned_reaches_keys:
  assumes "fetch_changes fuel a ks p w = (Return (), p', w')"
    and "distinct ks" and "k \<in> set ks" and "k \<noteq> ''reply''"
  shows "\<exists>pre post p0 w0 w1 obj r.
           ks = pre @ k # post \<and>
           fetch_changes fuel a pre p w = (Return (), p0, w0) \<and>
           fetch_objectmodel_recursive fuel a (changed_args k) w0 = (Return obj, w1) \<and>
           map_of obj ''result'' = Some r \<and>
           py_getitem_str (om p') k = Inr r"
  using assms
proof (induction ks arbitrary: p w)
  case Nil
  then show ?case by simp
next
  case (Cons k' ks)
  show ?case
  proof (cases "k' = k")
    case True
    from Cons.prems(2) True have notin: "k \<notin> set ks" by simp
    from Cons.prems(1) True Cons.prems(4) obtain obj w1 r om' where
      f: "fetch_objectmodel_recursive fuel a (changed_args k) w = (Return obj, w1)"
      and r: "map_of obj ''result'' = Some r"
      and s: "py_setitem_str (om p) k r = Inr om'"
      and rest: "fetch_changes fuel a ks (p\<lparr>om := om'\<rparr>) w1 = (Return (), p', w')"
      by (auto split: prod.splits outcome.splits option.splits sum.splits)
    from s have "py_getitem_str om' k = Inr r"
      by (cases "om p") (auto simp: update_conv')
    with fetch_changes_om_other[OF rest notin] have g: "py_getitem_str (om p') k = Inr r" by simp
    have "k' # ks = [] @ k # ks" using True by simp
    moreover have "fetch_changes fuel a [] p w = (Return (), p, w)" by simp
    ultimately show ?thesis using f r g by blast
  next
    case False
    with Cons.prems have k: "k \<in> set ks" and d: "distinct ks" by auto
    from fetch_changes_step[OF Cons.prems(1)] obtain p1 w1 where
      one: "fetch_changes fuel a [k'] p w = (Return (), p1, w1)"
      and rest: "fetch_changes fuel a ks p1 w1 = (Return (), p', w')" by blast
    from Cons.IH[OF rest d k Cons.prems(4)] obtain pre post p0 w0 w2 obj r where
      ks: "ks = pre @ k # post"
      and pre: "fetch_changes fuel a pre p1 w1 = (Return (), p0, w0)"
      and f: "fetch_objectmodel_recursive fuel a (changed_args k) w0 = (Return obj, w2)"
      and r: "map_of obj ''result'' = Some r"
      and g: "py_getitem_str (om p') k = Inr r"
      by blast
    from fetch_changes_append[OF one, of pre] pre
    have "fetch_changes fuel a (k' # pre) p w = (Return (), p0, w0)" by simp
    moreover have "k' # ks = (k' # pre) @ k # post" using ks by simp
    ultimately show ?thesis using f r g by blast
  qed
qed




section \<open>Properties of the 503 callback\<close>

lemma last_non_empty_Cons:
  "r \<noteq> [] \<Longrightarrow> last_non_empty old (r # xs) = last_non_empty (Some r) xs"
  by (simp add: last_non_empty_def split: list.splits)

lemma drain_spec:
  "replies_delivered a (dev w) rs \<Longrightarrow> n \<le> length rs \<or> [] \<in> set rs \<Longrightarrow>
   \<exists>w'. drain n a p w =
           (None, p\<lparr>reply := last_non_empty (reply p) (take n (upto_first_empty rs))\<rparr>, w') \<and>
         trace w' = trace w @ map (\<lambda>r. Rr_reply (Some True) (Inr r)) (take n (upto_first_empty rs))"
proof (induction n arbitrary: rs p w)
  case 0
  then show ?case by (simp add: last_non_empty_def)
next
  case (Suc n)
  from Suc.prems(2) obtain r rs' where rs: "rs = r # rs'" by (cases rs) auto
  from Suc.prems(1) rs obtain d1 where
    rd: "rr_reply a (Some True) (dev w) = (Inr r, d1)" and del: "replies_delivered a d1 rs'"
    by (auto split: prod.splits sum.splits)
  let ?w1 = "w\<lparr>dev := d1, trace := trace w @ [Rr_reply (Some True) (Inr r)]\<rparr>"
  have call: "call_rr_reply a (Some True) w = (Inr r, ?w1)"
    using rd by (simp add: call_rr_reply_def)
  show ?case
  proof (cases "r = []")
    case True
    with call rs show ?thesis
      by (simp add: upto_first_empty_def last_non_empty_def)
  next
    case False
    from Suc.prems(2) rs False have len: "n \<le> length rs' \<or> [] \<in> set rs'" by auto
    from del have del': "replies_delivered a (dev ?w1) rs'" by simp
    from Suc.IH[OF del' len, of "p\<lparr>reply := Some r\<rparr>"]
    obtain w' where
      dr: "drain n a (p\<lparr>reply := Some r\<rparr>) ?w1 =
             (None, p\<lparr>reply := last_non_empty (Some r) (take n (upto_first_empty rs'))\<rparr>, w')"
      and tr: "trace w' = trace ?w1 @
                 map (\<lambda>r. Rr_reply (Some True) (Inr r)) (take n (upto_first_empty rs'))"
      by auto
    have up: "upto_first_empty rs = r # upto_first_empty rs'"
      using rs False by (simp add: upto_first_empty_def)
    from call False dr tr up show ?thesis
      by (simp add: last_non_empty_Cons)
  qed
qed

text \<open>
  Claim C6. Let the device deliver the replies \<open>rs\<close>, ten of them or more, or with an
  empty one among them. Then the callback returns; the calls it made are exactly the
  reads \<open>drain_reads rs\<close>, that is the replies up to and including the first empty one
  and ten at most, followed by the yield; and the reply it has stored, which a waiter
  sees at the yield, is the last non-empty text it read (the reply stored before, when
  it read none). After ten non-empty reads there is no eleventh, and the tenth text is
  the one retained.
\<close>

theorem http_503_drain:
  assumes "replies_delivered a (dev w) rs" and "10 \<le> length rs \<or> [] \<in> set rs"
  shows "\<exists>w'. http_503_callback a err p w =
                 (Return (),
                  p\<lparr>reply := last_non_empty (reply p) (drain_reads rs), wait_for_reply := False\<rparr>,
                  w') \<and>
               trace w' = trace w @ map (\<lambda>r. Rr_reply (Some True) (Inr r)) (drain_reads rs) @
                 [Sleep0 (p\<lparr>reply := last_non_empty (reply p) (drain_reads rs),
                            wait_for_reply := True\<rparr>)] \<and>
               length (drain_reads rs) \<le> 10"
proof -
  from drain_spec[OF assms, of p] obtain w1 where
    dr: "drain 10 a p w = (None, p\<lparr>reply := last_non_empty (reply p) (drain_reads rs)\<rparr>, w1)"
    and tr: "trace w1 = trace w @ map (\<lambda>r. Rr_reply (Some True) (Inr r)) (drain_reads rs)"
    by (auto simp: drain_reads_def)
  from dr tr show ?thesis
    by (simp add: http_503_callback_def sleep0_def drain_reads_def)
qed

theorem http_503_drain_witness:
  "replies_delivered demo_api (dev (idle_io\<lparr>dev := eleven_replies\<rparr>)) eleven_replies \<and>
   (10 \<le> length eleven_replies \<or> [] \<in> set eleven_replies) \<and>
   (\<exists>w'. http_503_callback demo_api TransportError fresh_printer (idle_io\<lparr>dev := eleven_replies\<rparr>) =
            (Return (),
             fresh_printer\<lparr>reply := last_non_empty (reply fresh_printer) (drain_reads eleven_replies),
                            wait_for_reply := False\<rparr>,
             w') \<and>
          trace w' = trace (idle_io\<lparr>dev := eleven_replies\<rparr>) @
            map (\<lambda>r. Rr_reply (Some True) (Inr r)) (drain_reads eleven_replies) @
            [Sleep0 (fresh_printer\<lparr>reply := last_non_empty (reply fresh_printer)
                                               (drain_reads eleven_replies),
                                    wait_for_reply := True\<rparr>)] \<and>
          length (drain_reads eleven_replies) \<le> 10) \<and>
   drain_reads eleven_replies = butlast eleven_replies \<and>
   last_non_empty (reply fresh_printer) (drain_reads eleven_replies) = Some ''r10''"
proof -
  have h1: "replies_delivered demo_api (dev (idle_io\<lparr>dev := eleven_replies\<rparr>)) eleven_replies"
    by (simp add: demo_defs eleven_replies_def)
  have h2: "10 \<le> length eleven_replies \<or> [] \<in> set eleven_replies"
    by (simp add: eleven_replies_def)
  have e1: "drain_reads eleven_replies = butlast eleven_replies"
    by (simp add: drain_reads_def upto_first_empty_def eleven_replies_def)
  have e2: "last_non_empty (reply fresh_printer) (drain_reads eleven_replies) = Some ''r10''"
    by (simp add: drain_reads_def upto_first_empty_def last_non_empty_def eleven_replies_def)
  from http_503_drain[OF h1 h2, of TransportError fresh_printer] h1 h2 e1 e2
  show ?thesis by blast
qed

text \<open>
  Claim C5, as amended. When the first read of the drain returns the empty string, the
  callback makes that one read and no other, leaves the stored reply as it was, and
  sets the ready signal: what a waiter sees at the yield is the reply stored before the
  callback (\<^verbatim>\<open>None\<close> when none was ever stored), and the signal is cleared again after
  the yield.
\<close>

theorem http_503_first_read_empty:
  assumes "rr_reply a (Some True) (dev w) = (Inr [], d')"
  shows "http_503_callback a err p w =
           (Return (), p\<lparr>wait_for_reply := False\<rparr>,
            w\<lparr>dev := d',
              trace := trace w @ [Rr_reply (Some True) (Inr []),
                                  Sleep0 (p\<lparr>wait_for_reply := True\<rparr>)]\<rparr>)"
proof -
  have "\<And>n. drain (Suc n) a p w =
          (None, p, w\<lparr>dev := d', trace := trace w @ [Rr_reply (Some True) (Inr [])]\<rparr>)"
    using assms by (simp add: call_rr_reply_def)
  from this[of 9] show ?thesis
    by (simp add: http_503_callback_def sleep0_def)
qed

theorem http_503_first_read_empty_witness:
  "rr_reply demo_api (Some True) (dev idle_io) = (Inr [], []) \<and>
   http_503_callback demo_api TransportError fresh_printer idle_io =
     (Return (), fresh_printer\<lparr>wait_for_reply := False\<rparr>,
      idle_io\<lparr>dev := [],
        trace := trace idle_io @ [Rr_reply (Some True) (Inr []),
                                  Sleep0 (fresh_printer\<lparr>wait_for_reply := True\<rparr>)]\<rparr>)"
proof -
  have h: "rr_reply demo_api (Some True) (dev idle_io) = (Inr [], [])"
    by (simp add: demo_defs)
  from http_503_first_read_empty[OF h] h show ?thesis by blast
qed

text \<open>The claim as stated fails when a reply was stored before: the waiter sees that
  reply, not an empty text.\<close>

theorem http_503_first_read_empty_keeps_stored_reply:
  "reply stale_printer = Some ''ok'' \<and>
   http_503_callback demo_api TransportError stale_printer idle_io =
     (Return (), stale_printer\<lparr>wait_for_reply := False\<rparr>,
      idle_io\<lparr>trace := [Rr_reply (Some True) (Inr []),
                          Sleep0 (stale_printer\<lparr>wait_for_reply := True\<rparr>)]\<rparr>) \<and>
   reply (stale_printer\<lparr>wait_for_reply := True\<rparr>) = Some ''ok'' \<and>
   reply (stale_printer\<lparr>wait_for_reply := False\<rparr>) = Some ''ok''"
  by (simp add: http_503_callback_def eval_nat_numeral demo_defs)

end
